theory Spec2Isabelle
  imports Main "HOL-Library.Word" "HOL-Library.Stream"
begin

unbundle bit_operations_syntax

section \<open>The key-value store\<close>

text \<open>
  The application keeps all its state in one Cloudflare KV namespace, a flat mapping from
  string keys to string values, reached through \<open>kv.get(key)\<close> (a string or \<open>null\<close>)
  and \<open>kv.put(key, value)\<close>. The model is the mapping together with the list of the
  operations issued so far, oldest first, so that "no store interaction" can be stated.
\<close>

datatype kv_op = Get string | Put string string

record KVNamespace =
  entries :: "string \<rightharpoonup> string"
  ops :: "kv_op list"

definition kv_get :: "KVNamespace \<Rightarrow> string \<Rightarrow> string option \<times> KVNamespace" where
  "kv_get kv key = (entries kv key, kv\<lparr>ops := ops kv @ [Get key]\<rparr>)"

definition kv_put :: "KVNamespace \<Rightarrow> string \<Rightarrow> string \<Rightarrow> KVNamespace" where
  "kv_put kv key v = kv\<lparr>entries := (entries kv)(key \<mapsto> v), ops := ops kv @ [Put key v]\<rparr>"

text \<open>
  JavaScript's \<open>!result\<close> on a value of type \<open>string | null\<close>: true for \<open>null\<close> and
  for the empty string.
\<close>

definition falsy :: "string option \<Rightarrow> bool" where
  "falsy result = (case result of None \<Rightarrow> True | Some s \<Rightarrow> s = [])"

section \<open>Random identifiers and keys\<close>

text \<open>
  \<open>crypto.randomUUID()\<close> is a platform function: it formats 128 random bits as a
  version-4 UUID, 32 lower-case hexadecimal digits grouped 8-4-4-4-12 with hyphens, the
  digit at index 12 forced to 4 and the two top bits of the digit at index 16 to binary 10.
  The random bits are the argument; a run of the program draws them from a stream.
\<close>

type_synonym uuid_bits = "128 word"

definition hex_chars :: string where
  "hex_chars = ''0123456789abcdef''"

definition hex_digit :: "nat \<Rightarrow> char" where
  "hex_digit n = hex_chars ! (n mod 16)"

definition nibble :: "uuid_bits \<Rightarrow> nat \<Rightarrow> nat" where
  "nibble w i = unat (drop_bit (4 * (31 - i)) w AND 15)"

definition uuid_digit :: "uuid_bits \<Rightarrow> nat \<Rightarrow> nat" where
  "uuid_digit w i =
     (if i = 12 then 4 else if i = 16 then 8 + nibble w i mod 4 else nibble w i)"

definition uuid_hex :: "uuid_bits \<Rightarrow> string" where
  "uuid_hex w = map (\<lambda>i. hex_digit (uuid_digit w i)) [0..<32]"

definition randomUUID :: "uuid_bits \<Rightarrow> string" where
  "randomUUID w =
     (let h = uuid_hex w
      in take 8 h @ ''-'' @ take 4 (drop 8 h) @ ''-'' @ take 4 (drop 12 h) @ ''-''
         @ take 4 (drop 16 h) @ ''-'' @ drop 20 h)"

text \<open>
  \<open>s.substring(a, b)\<close>: the two indices are swapped when \<open>a > b\<close> and clamped to the
  length of the string.
\<close>

definition substring :: "string \<Rightarrow> nat \<Rightarrow> nat \<Rightarrow> string" where
  "substring s a b = take (max a b - min a b) (drop (min a b) s)"

text \<open>The candidate key of one draw: \<open>uuid.substring(0, 6)\<close>.\<close>

definition candidate :: "uuid_bits \<Rightarrow> string" where
  "candidate w = substring (randomUUID w) 0 6"

text \<open>The route pattern \<open>[0-9a-z]{6}\<close>, matched against a whole path segment.\<close>

definition alnum_chars :: string where
  "alnum_chars = ''0123456789abcdefghijklmnopqrstuvwxyz''"

definition route_key :: "string \<Rightarrow> bool" where
  "route_key k = (length k = 6 \<and> list_all (\<lambda>c. c \<in> set alnum_chars) k)"

section \<open>The key generator\<close>

text \<open>
  \<^verbatim>\<open>
  const createKey = async (kv: KVNamespace, url: string) => {
    const uuid = crypto.randomUUID()
    const key = uuid.substring(0, 6)
    const result = await kv.get(key)
    if (!result) {
      await kv.put(key, url)
    } else {
      await createKey(kv, url)
    }
    return key
  }
  \<close>
  The recursion has no bound, so the model is a partial function: \<open>None\<close> is the run
  that never returns. A returning run gives the key, the store and the rest of the random
  stream. The value of the recursive call is dropped, as in the source: every call
  returns its own \<open>key\<close>.
\<close>

partial_function (option) createKey ::
  "uuid_bits stream \<Rightarrow> KVNamespace \<Rightarrow> string \<Rightarrow> (string \<times> KVNamespace \<times> uuid_bits stream) option"
where
  "createKey rs kv url =
     (let uuid = randomUUID (shd rs);
          key = substring uuid 0 6;
          (result, kv1) = kv_get kv key
      in if falsy result then Some (key, kv_put kv1 key url, stl rs)
         else Option.bind (createKey (stl rs) kv1 url)
                (\<lambda>(inner, kv2, rs2). Some (key, kv2, rs2)))"

section \<open>Requests, responses and middleware\<close>

text \<open>
  A request to \<open>POST /create\<close> as a form submission: the origin (scheme and host) of the
  request URL, the \<open>Origin\<close> and \<open>Referer\<close> headers, and the form field \<open>url\<close>
  (\<open>None\<close> when the field is missing or not a string).
\<close>

record request =
  req_origin :: string
  origin_header :: "string option"
  referer_header :: "string option"
  form_url :: "string option"

datatype page = TopPage | ErrorPage | CreatedPage string

datatype response = Redirect nat string | Rendered page | Forbidden | NotFound

datatype stage = CsrfGuard | FormValidator | CreateHandler

text \<open>
  What a route has produced: the response, the store, the rest of the random stream and
  the stages of the route that ran, in order. The layout middleware
  \<open>app.all('*', renderer)\<close> only installs the page layout used by \<open>c.render\<close>
  and is not a stage.
\<close>

record outcome =
  response :: response
  store :: KVNamespace
  rand :: "uuid_bits stream"
  stages :: "stage list"

record ctx =
  req :: request
  kv :: KVNamespace
  rnd :: "uuid_bits stream"
  ran :: "stage list"

definition enter :: "stage \<Rightarrow> ctx \<Rightarrow> ctx" where
  "enter s c = c\<lparr>ran := ran c @ [s]\<rparr>"

definition respond :: "response \<Rightarrow> ctx \<Rightarrow> outcome" where
  "respond r c = \<lparr>response = r, store = kv c, rand = rnd c, stages = ran c\<rparr>"

text \<open>
  \<open>csrf()\<close> of \<open>hono/csrf\<close> with no options, on a form submission with an unsafe
  method: the request passes when it has an \<open>Origin\<close> header equal to the origin of the
  request URL, and is answered 403 otherwise, without calling the next middleware.
\<close>

definition isAllowedOrigin :: "request \<Rightarrow> bool" where
  "isAllowedOrigin r =
     (case origin_header r of None \<Rightarrow> False | Some origin \<Rightarrow> origin = req_origin r)"

definition csrf :: "(ctx \<Rightarrow> outcome option) \<Rightarrow> ctx \<Rightarrow> outcome option" where
  "csrf next c =
     (let c1 = enter CsrfGuard c
      in if \<not> isAllowedOrigin (req c1) then Some (respond Forbidden c1) else next c1)"

text \<open>
  \<^verbatim>\<open>
  const schema = z.object({ url: z.string().url() })
  const validator = zValidator('form', schema, (result, c) => {
    if (!result.success) { return c.render(<div><h2>Error!</h2>...</div>) }
  })
  \<close>
  The URL test of the schema is a library function and a parameter, \<open>is_url\<close>. On
  success the validated \<open>url\<close> is handed to the next handler (\<open>c.req.valid('form')\<close>).
\<close>

definition validator ::
  "(string \<Rightarrow> bool) \<Rightarrow> (string \<Rightarrow> ctx \<Rightarrow> outcome option) \<Rightarrow> ctx \<Rightarrow> outcome option" where
  "validator is_url next c =
     (let c1 = enter FormValidator c
      in case form_url (req c1) of
           None \<Rightarrow> Some (respond (Rendered ErrorPage) c1)
         | Some url \<Rightarrow>
             if is_url url then next url c1 else Some (respond (Rendered ErrorPage) c1))"

text \<open>
  \<open>new URL(`/${key}`, c.req.url).toString()\<close>: an absolute path resolved against the
  request URL keeps its origin.
\<close>

definition shortenUrl :: "request \<Rightarrow> string \<Rightarrow> string" where
  "shortenUrl r key = req_origin r @ ''/'' @ key"

text \<open>The handler of \<open>POST /create\<close> in \<open>src/index.tsx\<close>.\<close>

definition create_handler :: "string \<Rightarrow> ctx \<Rightarrow> outcome option" where
  "create_handler url c =
     (let c1 = enter CreateHandler c
      in Option.bind (createKey (rnd c1) (kv c1) url)
           (\<lambda>(key, kv', rs').
              Some (respond (Rendered (CreatedPage (shortenUrl (req c1) key)))
                      (c1\<lparr>kv := kv', rnd := rs'\<rparr>))))"

text \<open>\<open>app.post('/create', csrf(), validator, async (c) => ...)\<close>\<close>

definition post_create ::
  "(string \<Rightarrow> bool) \<Rightarrow> request \<Rightarrow> KVNamespace \<Rightarrow> uuid_bits stream \<Rightarrow> outcome option" where
  "post_create is_url r s rs =
     csrf (validator is_url create_handler) \<lparr>req = r, kv = s, rnd = rs, ran = []\<rparr>"

text \<open>
  The older \<open>POST /create\<close> (the second version of \<open>index.tsx\<close>), with no key
  generator and no CSRF guard:
  \<^verbatim>\<open>
  app.post('/create', validator, async (c) => {
    const { url } = c.req.valid('form')
    const uuid = crypto.randomUUID()
    let key = await c.env.KV.get(url)
    if (!key) {
      key = uuid.substring(0, 6)
      await c.env.KV.put(key, url)
    }
    const shortenUrl = new URL(`/${key}`, c.req.url)
    ...
  \<close>
  When the lookup is truthy the case \<open>None\<close> cannot occur; it is there for totality.
\<close>

definition create_handler_B :: "string \<Rightarrow> ctx \<Rightarrow> outcome option" where
  "create_handler_B url c =
     (let c1 = enter CreateHandler c;
          uuid = randomUUID (shd (rnd c1));
          (found, kv1) = kv_get (kv c1) url;
          (key, kv2) =
            (if falsy found then (substring uuid 0 6, kv_put kv1 (substring uuid 0 6) url)
             else (case found of Some k \<Rightarrow> k | None \<Rightarrow> [], kv1))
      in Some (respond (Rendered (CreatedPage (shortenUrl (req c1) key)))
                 (c1\<lparr>kv := kv2, rnd := stl (rnd c1)\<rparr>)))"

definition post_create_B ::
  "(string \<Rightarrow> bool) \<Rightarrow> request \<Rightarrow> KVNamespace \<Rightarrow> uuid_bits stream \<Rightarrow> outcome option" where
  "post_create_B is_url r s rs =
     validator is_url create_handler_B \<lparr>req = r, kv = s, rnd = rs, ran = []\<rparr>"

section \<open>The GET routes\<close>

text \<open>
  \<^verbatim>\<open>
  app.get('/:key{[0-9a-z]{6}}', async (c) => {
    const key = c.req.param('key')
    const url = await c.env.KV.get(key)
    if (url === null) { return c.redirect('/') }
    return c.redirect(url)
  })
  \<close>
  \<open>c.redirect\<close> answers with status 302 when none is given.
\<close>

definition get_key :: "KVNamespace \<Rightarrow> string \<Rightarrow> response \<times> KVNamespace" where
  "get_key s key =
     (let (url, s1) = kv_get s key
      in case url of None \<Rightarrow> (Redirect 302 ''/'', s1) | Some u \<Rightarrow> (Redirect 302 u, s1))"

text \<open>
  The GET routes in the order they are registered: the key route, then the top page;
  any other path is not found.
\<close>

definition app_get :: "KVNamespace \<Rightarrow> string \<Rightarrow> response \<times> KVNamespace" where
  "app_get s path =
     (case path of
        [] \<Rightarrow> (NotFound, s)
      | c # seg \<Rightarrow>
          if c = CHR ''/'' \<and> route_key seg then get_key s seg
          else if path = ''/'' then (Rendered TopPage, s)
          else (NotFound, s))"

text \<open>The registry's \<open>resolve\<close>: what the store holds for a key.\<close>

definition resolve :: "KVNamespace \<Rightarrow> string \<Rightarrow> string option" where
  "resolve s key = fst (kv_get s key)"

section \<open>Notions used in the statements\<close>

text \<open>
  Draw number \<open>n\<close> of the random stream is the first whose candidate key passes the
  test \<open>!result\<close> of \<open>createKey\<close> in the store \<open>s\<close>.
\<close>

definition first_free :: "uuid_bits stream \<Rightarrow> KVNamespace \<Rightarrow> nat \<Rightarrow> bool" where
  "first_free rs s n =
     (falsy (entries s (candidate (rs !! n))) \<and>
      (\<forall>i<n. \<not> falsy (entries s (candidate (rs !! i)))))"

text \<open>
  The stores of the data model: every key is a short key and every value a non-empty
  string. The only write of the application is \<open>put(key, url)\<close> with a candidate key
  and a URL that passed the validator, so the empty store is such a store and every route
  keeps the property (shown below for the stores that runs of the application reach).
\<close>

definition link_store :: "KVNamespace \<Rightarrow> bool" where
  "link_store s = (\<forall>k v. entries s k = Some v \<longrightarrow> route_key k \<and> v \<noteq> [])"

text \<open>
  What the statements need of the schema's URL test: it accepts absolute URLs only, and
  an absolute URL has a scheme followed by a colon.
\<close>

definition absolute_urls_only :: "(string \<Rightarrow> bool) \<Rightarrow> bool" where
  "absolute_urls_only is_url = (\<forall>x. is_url x \<longrightarrow> CHR '':'' \<in> set x)"

text \<open>
  The stores that the application reaches from the empty store by answering requests:
  \<open>reachable\<close> for \<open>src/index.tsx\<close>, \<open>reachable_B\<close> for its older version.
\<close>

inductive reachable :: "(string \<Rightarrow> bool) \<Rightarrow> KVNamespace \<Rightarrow> bool" for is_url where
  start: "reachable is_url \<lparr>entries = Map.empty, ops = []\<rparr>"
| get: "reachable is_url s \<Longrightarrow> reachable is_url (snd (app_get s path))"
| post: "reachable is_url s \<Longrightarrow> post_create is_url r s rs = Some out \<Longrightarrow>
         reachable is_url (store out)"

inductive reachable_B :: "(string \<Rightarrow> bool) \<Rightarrow> KVNamespace \<Rightarrow> bool" for is_url where
  start_B: "reachable_B is_url \<lparr>entries = Map.empty, ops = []\<rparr>"
| get_B: "reachable_B is_url s \<Longrightarrow> reachable_B is_url (snd (app_get s path))"
| post_B: "reachable_B is_url s \<Longrightarrow> post_create_B is_url r s rs = Some out \<Longrightarrow>
           reachable_B is_url (store out)"

text \<open>
  Inputs of the examples: two draws of 128 random bits, whose keys are \<open>3f9a1c\<close> and
  \<open>c07e52\<close>; a URL test that accepts \<open>https://example.com/page\<close> and rejects
  \<open>not-a-url\<close>, as the schema's does; a same-site and a cross-site form submission to
  the application served at \<open>https://sho.rt\<close>.
\<close>

definition bits1 :: uuid_bits where
  "bits1 = 0x3f9a1c0e5b7d4c2a9e8f0a1b2c3d4e5f"

definition bits2 :: uuid_bits where
  "bits2 = 0xc07e52d18a6b4f3c8d9e0f1a2b3c4d5e"

definition url_test :: "string \<Rightarrow> bool" where
  "url_test u = (take 8 u = ''https://'' \<or> take 7 u = ''http://'')"

definition same_site :: "string \<Rightarrow> request" where
  "same_site u =
     \<lparr>req_origin = ''https://sho.rt'', origin_header = Some ''https://sho.rt'',
      referer_header = Some ''https://sho.rt/'', form_url = Some u\<rparr>"

definition cross_site :: "string \<Rightarrow> request" where
  "cross_site u =
     \<lparr>req_origin = ''https://sho.rt'', origin_header = Some ''https://evil.example'',
      referer_header = Some ''https://evil.example/form'', form_url = Some u\<rparr>"

definition store_of :: "(string \<rightharpoonup> string) \<Rightarrow> KVNamespace" where
  "store_of m = \<lparr>entries = m, ops = []\<rparr>"

section \<open>Store operations and the key generator: basic facts\<close>

lemma entries_kv_get [simp]: "entries (snd (kv_get s k)) = entries s"
  by (simp add: kv_get_def)

lemma ops_kv_get [simp]: "ops (snd (kv_get s k)) = ops s @ [Get k]"
  by (simp add: kv_get_def)

lemma fst_kv_get [simp]: "fst (kv_get s k) = entries s k"
  by (simp add: kv_get_def)

lemma entries_kv_put [simp]: "entries (kv_put s k v) = (entries s)(k \<mapsto> v)"
  by (simp add: kv_put_def)

lemma ops_kv_put [simp]: "ops (kv_put s k v) = ops s @ [Put k v]"
  by (simp add: kv_put_def)

lemma createKey_free:
  "falsy (entries s (candidate (shd rs))) \<Longrightarrow>
   createKey rs s url =
     Some (candidate (shd rs),
           kv_put (snd (kv_get s (candidate (shd rs)))) (candidate (shd rs)) url, stl rs)"
  by (subst createKey.simps) (simp add: candidate_def Let_def split_beta)

lemma createKey_taken:
  "\<not> falsy (entries s (candidate (shd rs))) \<Longrightarrow>
   createKey rs s url =
     Option.bind (createKey (stl rs) (snd (kv_get s (candidate (shd rs)))) url)
       (\<lambda>(inner, s2, rs2). Some (candidate (shd rs), s2, rs2))"
  by (subst createKey.simps) (simp add: candidate_def Let_def split_beta)

lemma createKey_first_free:
  assumes "first_free rs s n"
  shows "\<exists>s'. createKey rs s url = Some (candidate (shd rs), s', sdrop (Suc n) rs) \<and>
           entries s' = (entries s)(candidate (rs !! n) \<mapsto> url) \<and>
           ops s' = ops s @ map (\<lambda>i. Get (candidate (rs !! i))) [0..<Suc n]
                      @ [Put (candidate (rs !! n)) url]"
  using assms
proof (induction n arbitrary: rs s)
  case 0
  then have "falsy (entries s (candidate (shd rs)))" by (simp add: first_free_def)
  from createKey_free[OF this, of url] show ?case
    by (intro exI[of _ "kv_put (snd (kv_get s (candidate (shd rs)))) (candidate (shd rs)) url"])
      simp
next
  case (Suc n)
  let ?k = "candidate (shd rs)"
  let ?s1 = "snd (kv_get s ?k)"
  from Suc.prems have taken: "\<not> falsy (entries s ?k)"
    by (auto simp: first_free_def dest: spec[of _ 0])
  from Suc.prems have "first_free (stl rs) ?s1 n"
    unfolding first_free_def
  proof (intro conjI allI impI)
    assume a: "falsy (entries s (candidate (rs !! Suc n))) \<and> (\<forall>i<Suc n. \<not> falsy (entries s (candidate (rs !! i))))"
    then show "falsy (entries ?s1 (candidate (stl rs !! n)))" by simp
    fix i assume "i < n"
    then have "Suc i < Suc n" by simp
    with a have "\<not> falsy (entries s (candidate (rs !! Suc i)))" by blast
    then show "\<not> falsy (entries ?s1 (candidate (stl rs !! i)))" by simp
  qed
  from Suc.IH[OF this] obtain s' where
    run: "createKey (stl rs) ?s1 url = Some (candidate (shd (stl rs)), s', sdrop (Suc n) (stl rs))"
    and ent: "entries s' = (entries ?s1)(candidate (stl rs !! n) \<mapsto> url)"
    and op: "ops s' = ops ?s1 @ map (\<lambda>i. Get (candidate (stl rs !! i))) [0..<Suc n]
                      @ [Put (candidate (stl rs !! n)) url]"
    by blast
  have "createKey rs s url = Some (?k, s', sdrop (Suc (Suc n)) rs)"
    using createKey_taken[OF taken, of url] run by simp
  moreover have "entries s' = (entries s)(candidate (rs !! Suc n) \<mapsto> url)"
    using ent by simp
  moreover have "map (\<lambda>i. Get (candidate (rs !! i))) [0..<Suc (Suc n)]
      = Get ?k # map (\<lambda>i. Get (candidate (stl rs !! i))) [0..<Suc n]"
    by (subst upt_conv_Cons, simp, subst map_Suc_upt[symmetric]) (simp del: upt_Suc)
  then have "ops s' = ops s @ map (\<lambda>i. Get (candidate (rs !! i))) [0..<Suc (Suc n)]
                      @ [Put (candidate (rs !! Suc n)) url]"
    using op by simp
  ultimately show ?case by blast
qed

lemma createKey_returns_free:
  assumes "createKey rs s url = Some y"
  shows "\<exists>n. falsy (entries s (candidate (rs !! n)))"
  using assms
proof (induction rs s url y rule: createKey.raw_induct[rotated 1, consumes 1, case_names step])
  case (step f rs s url y)
  show ?case
  proof (cases "falsy (entries s (candidate (shd rs)))")
    case True
    then have "falsy (entries s (candidate (rs !! 0)))" by simp
    then show ?thesis by blast
  next
    case False
    with step.hyps obtain y' where "f (stl rs) (snd (kv_get s (candidate (shd rs)))) url = Some y'"
      by (auto simp: candidate_def Let_def split_beta kv_get_def split: bind_splits)
    from step.IH[OF this] obtain n where "falsy (entries s (candidate (stl rs !! n)))"
      by auto
    then have "falsy (entries s (candidate (rs !! Suc n)))" by simp
    then show ?thesis by blast
  qed
qed

lemma first_free_Least:
  assumes "falsy (entries s (candidate (rs !! n)))"
  shows "first_free rs s (LEAST i. falsy (entries s (candidate (rs !! i))))"
  unfolding first_free_def
  using assms by (auto intro: LeastI dest: not_less_Least)

lemma createKey_terminates_iff:
  "createKey rs s url \<noteq> None \<longleftrightarrow> (\<exists>n. falsy (entries s (candidate (rs !! n))))"
proof
  assume "createKey rs s url \<noteq> None"
  then obtain y where "createKey rs s url = Some y" by blast
  then show "\<exists>n. falsy (entries s (candidate (rs !! n)))" by (rule createKey_returns_free)
next
  assume "\<exists>n. falsy (entries s (candidate (rs !! n)))"
  then obtain n where "falsy (entries s (candidate (rs !! n)))" ..
  from createKey_first_free[OF first_free_Least[OF this], of url] show "createKey rs s url \<noteq> None"
    by auto
qed

lemma createKey_result:
  assumes "createKey rs s url = Some (key, s', rs')"
  shows "\<exists>n. first_free rs s n \<and> key = candidate (shd rs) \<and> rs' = sdrop (Suc n) rs \<and>
           entries s' = (entries s)(candidate (rs !! n) \<mapsto> url) \<and>
           ops s' = ops s @ map (\<lambda>i. Get (candidate (rs !! i))) [0..<Suc n]
                      @ [Put (candidate (rs !! n)) url]"
proof -
  from createKey_returns_free[OF assms] obtain m where "falsy (entries s (candidate (rs !! m)))" ..
  then have ff: "first_free rs s (LEAST i. falsy (entries s (candidate (rs !! i))))"
    by (rule first_free_Least)
  from createKey_first_free[OF ff, of url] assms show ?thesis
    using ff by (intro exI[of _ "LEAST i. falsy (entries s (candidate (rs !! i)))"]) auto
qed

section \<open>Candidate keys\<close>

lemma candidate_bits1: "candidate bits1 = ''3f9a1c''"
  unfolding bits1_def by code_simp

lemma candidate_bits2: "candidate bits2 = ''c07e52''"
  unfolding bits2_def by code_simp

lemma hex_digit_in: "hex_digit n \<in> set hex_chars"
  unfolding hex_digit_def by (rule nth_mem) (simp add: hex_chars_def)

lemma candidate_nibbles: "candidate w = map (\<lambda>i. hex_digit (nibble w i)) [0..<6]"
  by (simp add: candidate_def substring_def randomUUID_def uuid_hex_def Let_def take_map
      uuid_digit_def)

lemma hex_subset_alnum: "set hex_chars \<subseteq> set alnum_chars"
  by (simp add: hex_chars_def alnum_chars_def)

lemma candidate_route_key: "route_key (candidate w)"
  unfolding route_key_def candidate_nibbles list_all_iff
  using hex_subset_alnum hex_digit_in by auto

lemma route_key_3f9a1c: "route_key ''3f9a1c''"
  by (simp add: route_key_def alnum_chars_def)

text \<open>
  Claim C5. Every candidate key of the key generator is the first 6 characters of the
  string form of a random 128-bit identifier: the hexadecimal digits of its six leading
  4-bit groups. It is therefore a string of 6 characters over \<open>0123456789abcdef\<close> and
  matches the route pattern \<open>[0-9a-z]{6}\<close>; the key that \<open>createKey\<close> returns is
  such a candidate.
\<close>

theorem candidate_key_hex:
  "substring (randomUUID w) 0 6 = take 6 (uuid_hex w) \<and>
   take 6 (uuid_hex w) = map (\<lambda>i. hex_digit (nibble w i)) [0..<6] \<and>
   length (substring (randomUUID w) 0 6) = 6 \<and>
   set (substring (randomUUID w) 0 6) \<subseteq> set hex_chars \<and>
   route_key (substring (randomUUID w) 0 6) \<and>
   (createKey rs s url = Some (key, s', rs') \<longrightarrow>
      key = substring (randomUUID (shd rs)) 0 6)"
proof -
  have a: "substring (randomUUID w) 0 6 = take 6 (uuid_hex w)"
    by (simp add: substring_def randomUUID_def Let_def uuid_hex_def)
  have b: "take 6 (uuid_hex w) = map (\<lambda>i. hex_digit (nibble w i)) [0..<6]"
    by (simp add: uuid_hex_def take_map uuid_digit_def)
  have c: "set (substring (randomUUID w) 0 6) \<subseteq> set hex_chars"
    unfolding a b using hex_digit_in by auto
  have d: "route_key (substring (randomUUID w) 0 6)"
    using candidate_route_key[of w] by (simp add: candidate_def)
  have e: "createKey rs s url = Some (key, s', rs') \<longrightarrow> key = substring (randomUUID (shd rs)) 0 6"
    using createKey_result[of rs s url key s' rs'] by (auto simp: candidate_def)
  from a b c d e show ?thesis by (simp add: route_key_def)
qed

theorem candidate_key_hex_witness:
  "substring (randomUUID bits1) 0 6 = ''3f9a1c'' \<and> route_key ''3f9a1c'' \<and>
   createKey (sconst bits1) (store_of Map.empty) ''https://example.com/page'' \<noteq> None \<and>
   fst (the (createKey (sconst bits1) (store_of Map.empty) ''https://example.com/page'')) = ''3f9a1c''"
proof -
  let ?s = "store_of Map.empty"
  let ?u = "''https://example.com/page''"
  have k: "substring (randomUUID bits1) 0 6 = ''3f9a1c''"
    using candidate_bits1 by (simp add: candidate_def)
  have "falsy (entries ?s (candidate (shd (sconst bits1))))"
    by (simp add: store_of_def falsy_def)
  from createKey_free[OF this, of ?u]
  obtain s' rs' where run: "createKey (sconst bits1) ?s ?u = Some (''3f9a1c'', s', rs')"
    by (simp add: candidate_bits1)
  have "route_key (substring (randomUUID bits1) 0 6)"
    using candidate_key_hex[of bits1 "sconst bits1" ?s ?u "''3f9a1c''" s' rs'] by blast
  then have "route_key ''3f9a1c''" by (simp only: k)
  with k run show ?thesis by simp
qed

section \<open>The redirect route\<close>

text \<open>
  Claim C3. For every key matching \<open>[0-9a-z]{6}\<close>, \<open>GET /<key>\<close> answers with a
  302 redirect to the stored target when the store has a value for the key and with a 302
  redirect to \<open>/\<close> when it has none; the store's mapping is left as it was, the only
  store operation being one read of the key.
\<close>

theorem get_key_redirects:
  "route_key key \<Longrightarrow>
   fst (app_get s (CHR ''/'' # key)) =
     (case entries s key of Some target \<Rightarrow> Redirect 302 target | None \<Rightarrow> Redirect 302 ''/'') \<and>
   entries (snd (app_get s (CHR ''/'' # key))) = entries s \<and>
   ops (snd (app_get s (CHR ''/'' # key))) = ops s @ [Get key]"
  by (simp add: app_get_def get_key_def kv_get_def split: option.split)

theorem get_key_redirects_witness:
  "route_key ''3f9a1c'' \<and>
   app_get (store_of [''3f9a1c'' \<mapsto> ''https://example.com/page'']) ''/3f9a1c'' =
     (Redirect 302 ''https://example.com/page'',
      \<lparr>entries = [''3f9a1c'' \<mapsto> ''https://example.com/page''], ops = [Get ''3f9a1c'']\<rparr>)"
proof -
  have r: "route_key ''3f9a1c''" by (rule route_key_3f9a1c)
  from get_key_redirects[OF r, of "store_of [''3f9a1c'' \<mapsto> ''https://example.com/page'']"] r
  show ?thesis
    by (cases "app_get (store_of [''3f9a1c'' \<mapsto> ''https://example.com/page'']) ''/3f9a1c''")
       (simp add: store_of_def) 
qed

section \<open>The creation route: guard, validator, handler\<close>

lemma post_create_rejected:
  "\<not> isAllowedOrigin r \<Longrightarrow>
   post_create is_url r s rs =
     Some \<lparr>response = Forbidden, store = s, rand = rs, stages = [CsrfGuard]\<rparr>"
  by (simp add: post_create_def csrf_def enter_def respond_def)

lemma post_create_invalid:
  "isAllowedOrigin r \<Longrightarrow> (\<And>u. form_url r = Some u \<Longrightarrow> \<not> is_url u) \<Longrightarrow>
   post_create is_url r s rs =
     Some \<lparr>response = Rendered ErrorPage, store = s, rand = rs,
           stages = [CsrfGuard, FormValidator]\<rparr>"
  by (cases "form_url r")
    (simp_all add: post_create_def csrf_def validator_def enter_def respond_def Let_def)

lemma post_create_valid:
  "isAllowedOrigin r \<Longrightarrow> form_url r = Some u \<Longrightarrow> is_url u \<Longrightarrow>
   post_create is_url r s rs =
     Option.bind (createKey rs s u)
       (\<lambda>(key, s', rs').
          Some \<lparr>response = Rendered (CreatedPage (shortenUrl r key)), store = s', rand = rs',
                stages = [CsrfGuard, FormValidator, CreateHandler]\<rparr>)"
  by (simp add: post_create_def csrf_def validator_def create_handler_def enter_def respond_def
      split_beta)

lemma post_create_stages:
  assumes "post_create is_url r s rs = Some out"
  shows "stages out = [CsrfGuard] \<and> response out = Forbidden \<and> \<not> isAllowedOrigin r \<or>
         stages out = [CsrfGuard, FormValidator] \<and> response out = Rendered ErrorPage
           \<and> isAllowedOrigin r \<or>
         stages out = [CsrfGuard, FormValidator, CreateHandler] \<and> isAllowedOrigin r
           \<and> (\<exists>u key. form_url r = Some u \<and> is_url u \<and>
                 createKey rs s u = Some (key, store out, rand out) \<and>
                 response out = Rendered (CreatedPage (shortenUrl r key)))"
proof (cases "isAllowedOrigin r")
  case False
  with assms post_create_rejected[OF False, of is_url s rs] show ?thesis by auto
next
  case True
  show ?thesis
  proof (cases "\<exists>u. form_url r = Some u \<and> is_url u")
    case False
    then have "\<And>u. form_url r = Some u \<Longrightarrow> \<not> is_url u" by blast
    from post_create_invalid[where is_url = is_url and r = r and s = s and rs = rs,
        OF True this] assms True show ?thesis by auto
  next
    case ex: True
    then obtain u where u: "form_url r = Some u" "is_url u" by blast
    from post_create_valid[where is_url = is_url and r = r and u = u and s = s and rs = rs,
        OF True u] assms True u show ?thesis
      by (auto split: bind_splits)
  qed
qed

lemma isAllowedOrigin_same_site: "isAllowedOrigin (same_site u)"
  by (simp add: isAllowedOrigin_def same_site_def)

lemma isAllowedOrigin_cross_site: "\<not> isAllowedOrigin (cross_site u)"
  by (simp add: isAllowedOrigin_def cross_site_def)

lemma url_test_page: "url_test ''https://example.com/page''"
  by (simp add: url_test_def)

lemma url_test_not_a_url: "\<not> url_test ''not-a-url''"
  by (simp add: url_test_def)

text \<open>
  Claim C6. On \<open>POST /create\<close> the CSRF guard runs strictly before the form validator:
  a request that the guard rejects is answered 403 with the guard as the only stage that
  ran, so it reaches neither the validator nor the creation handler, and the store is
  returned as it was given, with no read and no write recorded. In every run the stages
  are an initial part of guard, validator, handler, in this order.
\<close>

theorem csrf_runs_first:
  "(\<not> isAllowedOrigin r \<longrightarrow>
      post_create is_url r s rs =
        Some \<lparr>response = Forbidden, store = s, rand = rs, stages = [CsrfGuard]\<rparr>) \<and>
   (post_create is_url r s rs = Some out \<longrightarrow>
      stages out \<in> {[CsrfGuard], [CsrfGuard, FormValidator],
                     [CsrfGuard, FormValidator, CreateHandler]})"
  using post_create_rejected[of r is_url s rs] post_create_stages[of is_url r s rs out]
  by auto

theorem csrf_runs_first_witness:
  "\<not> isAllowedOrigin (cross_site ''https://example.com/page'') \<and>
   post_create url_test (cross_site ''https://example.com/page'') (store_of Map.empty)
       (sconst bits1) =
     Some \<lparr>response = Forbidden, store = store_of Map.empty, rand = sconst bits1,
           stages = [CsrfGuard]\<rparr>"
  using csrf_runs_first[of "cross_site ''https://example.com/page''" url_test
      "store_of Map.empty" "sconst bits1"
      "\<lparr>response = Forbidden, store = store_of Map.empty, rand = sconst bits1,
           stages = [CsrfGuard]\<rparr>"]
    isAllowedOrigin_cross_site[of "''https://example.com/page''"]
  by simp

text \<open>
  Claim C4, as stated, fails: a form submission whose \<open>url\<close> field is not a URL and
  whose \<open>Origin\<close> header is foreign is answered by the CSRF guard with 403, not with
  the rendered error page.
\<close>

theorem invalid_url_error_page_counterexample:
  "form_url (cross_site ''not-a-url'') = Some ''not-a-url'' \<and> \<not> url_test ''not-a-url'' \<and>
   post_create url_test (cross_site ''not-a-url'') (store_of Map.empty) (sconst bits1) =
     Some \<lparr>response = Forbidden, store = store_of Map.empty, rand = sconst bits1,
           stages = [CsrfGuard]\<rparr> \<and>
   Forbidden \<noteq> Rendered ErrorPage"
  using post_create_rejected[OF isAllowedOrigin_cross_site] url_test_not_a_url
  by (simp add: cross_site_def)

text \<open>
  Claim C4, amended. For every form submission to \<open>POST /create\<close> whose \<open>url\<close>
  field is missing or does not pass the URL test, the store is left completely unchanged
  (no read, no write) and the creation handler is skipped; the response is the rendered
  error page when the submission passes the CSRF guard, and the guard's 403 otherwise.
\<close>

theorem invalid_url_store_untouched:
  assumes "\<And>u. form_url r = Some u \<Longrightarrow> \<not> is_url u"
  shows "post_create is_url r s rs =
     Some \<lparr>response = (if isAllowedOrigin r then Rendered ErrorPage else Forbidden),
           store = s, rand = rs,
           stages = (if isAllowedOrigin r then [CsrfGuard, FormValidator] else [CsrfGuard])\<rparr>"
proof (cases "isAllowedOrigin r")
  case True
  from post_create_invalid[where is_url = is_url and r = r and s = s and rs = rs,
      OF True assms] True show ?thesis by simp
next
  case False
  from post_create_rejected[OF False] False show ?thesis by simp
qed

theorem invalid_url_store_untouched_witness:
  "form_url (same_site ''not-a-url'') = Some ''not-a-url'' \<and> \<not> url_test ''not-a-url'' \<and>
   post_create url_test (same_site ''not-a-url'')
       (store_of [''3f9a1c'' \<mapsto> ''https://old.example/'']) (sconst bits1) =
     Some \<lparr>response = Rendered ErrorPage,
           store = store_of [''3f9a1c'' \<mapsto> ''https://old.example/''], rand = sconst bits1,
           stages = [CsrfGuard, FormValidator]\<rparr>"
proof -
  have f: "form_url (same_site ''not-a-url'') = Some ''not-a-url''"
    by (simp add: same_site_def)
  have h: "\<And>u. form_url (same_site ''not-a-url'') = Some u \<Longrightarrow> \<not> url_test u"
    using url_test_not_a_url by (simp add: same_site_def)
  from invalid_url_store_untouched[where is_url = url_test and r = "same_site ''not-a-url''"
      and s = "store_of [''3f9a1c'' \<mapsto> ''https://old.example/'']" and rs = "sconst bits1",
      OF h] f
    url_test_not_a_url isAllowedOrigin_same_site[of "''not-a-url''"]
  show ?thesis by simp
qed

section \<open>Creating a link\<close>

lemma falsy_simps [simp]:
  "falsy None" "falsy (Some v) = (v = [])"
  by (simp_all add: falsy_def)

lemma createKey_collision_run:
  "createKey (bits1 ## sconst bits2) (store_of [''3f9a1c'' \<mapsto> ''https://old.example/'']) url =
     Some (''3f9a1c'',
           \<lparr>entries = [''3f9a1c'' \<mapsto> ''https://old.example/'', ''c07e52'' \<mapsto> url],
            ops = [Get ''3f9a1c'', Get ''c07e52'', Put ''c07e52'' url]\<rparr>,
           sconst bits2)"
proof -
  let ?s = "store_of [''3f9a1c'' \<mapsto> ''https://old.example/'']"
  let ?s1 = "snd (kv_get ?s ''3f9a1c'')"
  have taken: "\<not> falsy (entries ?s (candidate (shd (bits1 ## sconst bits2))))"
    by (simp add: candidate_bits1 store_of_def)
  have free: "falsy (entries ?s1 (candidate (shd (sconst bits2))))"
    by (simp add: candidate_bits2 store_of_def)
  have "createKey (sconst bits2) ?s1 url =
          Some (''c07e52'', kv_put (snd (kv_get ?s1 ''c07e52'')) ''c07e52'' url, sconst bits2)"
    using createKey_free[OF free, of url] by (simp add: candidate_bits2)
  then have "createKey (bits1 ## sconst bits2) ?s url =
          Some (''3f9a1c'', kv_put (snd (kv_get ?s1 ''c07e52'')) ''c07e52'' url, sconst bits2)"
    using createKey_taken[OF taken, of url] by (simp add: candidate_bits1)
  then show ?thesis by (simp add: kv_put_def kv_get_def store_of_def)
qed

text \<open>The stores of the data model are kept by every route.\<close>

lemma link_store_falsy: "link_store s \<Longrightarrow> falsy (entries s k) = (entries s k = None)"
  by (cases "entries s k") (auto simp: link_store_def)

lemma link_store_start: "link_store \<lparr>entries = Map.empty, ops = []\<rparr>"
  by (simp add: link_store_def)

lemma link_store_kv_get: "link_store s \<Longrightarrow> link_store (snd (kv_get s k))"
  by (simp add: link_store_def)

lemma link_store_kv_put:
  "link_store s \<Longrightarrow> route_key k \<Longrightarrow> v \<noteq> [] \<Longrightarrow> link_store (kv_put s k v)"
  by (simp add: link_store_def)

lemma entries_app_get: "entries (snd (app_get s path)) = entries s"
  by (cases path) (simp_all add: app_get_def get_key_def kv_get_def split: option.split)

lemma link_store_app_get: "link_store s \<Longrightarrow> link_store (snd (app_get s path))"
  by (simp add: link_store_def entries_app_get)

lemma absolute_urls_only_nonempty: "absolute_urls_only is_url \<Longrightarrow> is_url u \<Longrightarrow> u \<noteq> []"
  by (auto simp: absolute_urls_only_def)

lemma colon_not_alnum: "CHR '':'' \<notin> set alnum_chars"
  by (simp add: alnum_chars_def)

lemma absolute_urls_only_no_key:
  "absolute_urls_only is_url \<Longrightarrow> is_url u \<Longrightarrow> \<not> route_key u"
proof
  assume a: "absolute_urls_only is_url" "is_url u" and r: "route_key u"
  from a have "CHR '':'' \<in> set u" by (simp add: absolute_urls_only_def)
  moreover from r have "\<forall>c\<in>set u. c \<in> set alnum_chars"
    by (simp add: route_key_def list_all_iff)
  ultimately show False using colon_not_alnum by blast
qed

lemma link_store_createKey:
  assumes "link_store s" and "url \<noteq> []" and "createKey rs s url = Some (key, s', rs')"
  shows "link_store s'"
proof -
  from createKey_result[OF assms(3)] obtain n where
    ent: "entries s' = (entries s)(candidate (rs !! n) \<mapsto> url)"
    by blast
  with assms(1,2) candidate_route_key[of "rs !! n"] show ?thesis
    by (auto simp: link_store_def)
qed

lemma link_store_post_create:
  assumes "absolute_urls_only is_url" and "link_store s"
    and "post_create is_url r s rs = Some out"
  shows "link_store (store out)"
proof (cases "isAllowedOrigin r")
  case False
  from post_create_rejected[OF False, of is_url s rs] assms(2,3) show ?thesis by auto
next
  case True
  show ?thesis
  proof (cases "\<exists>u. form_url r = Some u \<and> is_url u")
    case False
    then have "\<And>u. form_url r = Some u \<Longrightarrow> \<not> is_url u" by blast
    from post_create_invalid[where is_url = is_url and r = r and s = s and rs = rs,
        OF True this] assms(2,3) show ?thesis by auto
  next
    case ex: True
    then obtain u where u: "form_url r = Some u" "is_url u" by blast
    from post_create_valid[where is_url = is_url and r = r and u = u and s = s and rs = rs,
        OF True u] assms(3)
    obtain key where run: "createKey rs s u = Some (key, store out, rand out)"
      by (auto split: bind_splits)
    from absolute_urls_only_nonempty[OF assms(1) u(2)] have "u \<noteq> []" .
    from link_store_createKey[OF assms(2) this run] show ?thesis .
  qed
qed

lemma reachable_link_store:
  assumes "absolute_urls_only is_url" and "reachable is_url s"
  shows "link_store s"
  using assms(2)
proof (induction rule: reachable.induct)
  case start
  show ?case by (rule link_store_start)
next
  case (get s path)
  then show ?case by (simp add: link_store_app_get)
next
  case (post s r rs out)
  from link_store_post_create[OF assms(1) post.IH post.hyps(2)] show ?case .
qed

lemma link_store_old_example:
  "link_store (store_of [''3f9a1c'' \<mapsto> ''https://old.example/''])"
  using route_key_3f9a1c by (simp add: link_store_def store_of_def)

lemma url_test_absolute: "absolute_urls_only url_test"
proof -
  have "CHR '':'' \<in> set x" if "take 8 x = ''https://'' \<or> take 7 x = ''http://''" for x
  proof -
    from that have "CHR '':'' \<in> set (take 8 x) \<or> CHR '':'' \<in> set (take 7 x)" by auto
    then show ?thesis by (auto dest: in_set_takeD)
  qed
  then show ?thesis by (simp add: absolute_urls_only_def url_test_def)
qed

text \<open>
  On every collision with a non-empty value the returned key is the colliding first
  candidate, and it still resolves to the old value.
\<close>

lemma createKey_collision_resolves_old:
  assumes "entries s (candidate (shd rs)) = Some old" and "old \<noteq> []"
    and "createKey rs s url = Some (key, s', rs')"
  shows "key = candidate (shd rs) \<and> resolve s' key = Some old"
proof -
  from createKey_result[OF assms(3)] obtain n where
    ff: "first_free rs s n" and k: "key = candidate (shd rs)"
    and ent: "entries s' = (entries s)(candidate (rs !! n) \<mapsto> url)"
    by blast
  from ff have "falsy (entries s (candidate (rs !! n)))" by (simp add: first_free_def)
  with assms(1,2) have "candidate (rs !! n) \<noteq> candidate (shd rs)" by auto
  with ent assms(1) k show ?thesis by (simp add: resolve_def)
qed

lemma randomUUID_bits1: "randomUUID bits1 = ''3f9a1c0e-5b7d-4c2a-9e8f-0a1b2c3d4e5f''"
  unfolding bits1_def by code_simp

lemma randomUUID_bits2: "randomUUID bits2 = ''c07e52d1-8a6b-4f3c-8d9e-0f1a2b3c4d5e''"
  unfolding bits2_def by code_simp

text \<open>
  Claim C1 says that the key returned by \<open>create\<close> resolves to the submitted URL. The
  run below is a same-site submission of \<open>https://example.com/page\<close> to a store that
  already maps \<open>3f9a1c\<close> to \<open>https://old.example/\<close>, with the draws \<open>3f9a1c...\<close>
  and \<open>c07e52...\<close>. The first candidate collides, the recursive call stores the URL
  under \<open>c07e52\<close>, and the outer call returns its own key \<open>3f9a1c\<close>: the page shows
  \<open>https://sho.rt/3f9a1c\<close>, which resolves and redirects to \<open>https://old.example/\<close>.
\<close>

theorem create_returns_colliding_key:
  "post_create url_test (same_site ''https://example.com/page'')
       (store_of [''3f9a1c'' \<mapsto> ''https://old.example/'']) (bits1 ## sconst bits2) =
     Some \<lparr>response = Rendered (CreatedPage ''https://sho.rt/3f9a1c''),
           store = \<lparr>entries = [''3f9a1c'' \<mapsto> ''https://old.example/'',
                                 ''c07e52'' \<mapsto> ''https://example.com/page''],
                      ops = [Get ''3f9a1c'', Get ''c07e52'',
                             Put ''c07e52'' ''https://example.com/page'']\<rparr>,
           rand = sconst bits2,
           stages = [CsrfGuard, FormValidator, CreateHandler]\<rparr> \<and>
   resolve \<lparr>entries = [''3f9a1c'' \<mapsto> ''https://old.example/'',
                         ''c07e52'' \<mapsto> ''https://example.com/page''],
              ops = [Get ''3f9a1c'', Get ''c07e52'',
                     Put ''c07e52'' ''https://example.com/page'']\<rparr> ''3f9a1c''
     = Some ''https://old.example/'' \<and>
   fst (app_get \<lparr>entries = [''3f9a1c'' \<mapsto> ''https://old.example/'',
                              ''c07e52'' \<mapsto> ''https://example.com/page''],
                   ops = [Get ''3f9a1c'', Get ''c07e52'',
                          Put ''c07e52'' ''https://example.com/page'']\<rparr> ''/3f9a1c'')
     = Redirect 302 ''https://old.example/''"
proof -
  have "form_url (same_site ''https://example.com/page'') = Some ''https://example.com/page''"
    by (simp add: same_site_def)
  from post_create_valid[where is_url = url_test, OF isAllowedOrigin_same_site this url_test_page]
  have "post_create url_test (same_site ''https://example.com/page'')
       (store_of [''3f9a1c'' \<mapsto> ''https://old.example/'']) (bits1 ## sconst bits2) =
     Some \<lparr>response = Rendered (CreatedPage ''https://sho.rt/3f9a1c''),
           store = \<lparr>entries = [''3f9a1c'' \<mapsto> ''https://old.example/'',
                                 ''c07e52'' \<mapsto> ''https://example.com/page''],
                      ops = [Get ''3f9a1c'', Get ''c07e52'',
                             Put ''c07e52'' ''https://example.com/page'']\<rparr>,
           rand = sconst bits2,
           stages = [CsrfGuard, FormValidator, CreateHandler]\<rparr>"
    by (simp add: createKey_collision_run shortenUrl_def same_site_def)
  moreover have "route_key ''3f9a1c''" by (rule route_key_3f9a1c)
  ultimately show ?thesis
    by (simp add: resolve_def app_get_def get_key_def kv_get_def)
qed

text \<open>
  Claim C2. For every store state of the data model in which the key generator's first
  candidate key already has a stored value, \<open>create\<close> does not overwrite that
  mapping: after \<open>createKey\<close> returns, the store still maps the colliding key to its
  original value.
\<close>

theorem colliding_mapping_kept:
  assumes "link_store s" and "entries s (candidate (shd rs)) = Some v"
    and "createKey rs s url = Some (key, s', rs')"
  shows "entries s' (candidate (shd rs)) = Some v"
proof -
  from assms(1,2) have v: "v \<noteq> []" by (auto simp: link_store_def)
  from createKey_result[OF assms(3)] obtain n where
    ff: "first_free rs s n" and ent: "entries s' = (entries s)(candidate (rs !! n) \<mapsto> url)"
    by blast
  from ff have "falsy (entries s (candidate (rs !! n)))" by (simp add: first_free_def)
  with assms(2) v have "candidate (rs !! n) \<noteq> candidate (shd rs)" by auto
  with ent assms(2) show ?thesis by simp
qed

theorem colliding_mapping_kept_witness:
  "link_store (store_of [''3f9a1c'' \<mapsto> ''https://old.example/'']) \<and>
   entries (store_of [''3f9a1c'' \<mapsto> ''https://old.example/''])
       (candidate (shd (bits1 ## sconst bits2))) = Some ''https://old.example/'' \<and>
   createKey (bits1 ## sconst bits2) (store_of [''3f9a1c'' \<mapsto> ''https://old.example/''])
       ''https://example.com/page'' \<noteq> None \<and>
   entries (fst (snd (the (createKey (bits1 ## sconst bits2)
       (store_of [''3f9a1c'' \<mapsto> ''https://old.example/'']) ''https://example.com/page''))))
       ''3f9a1c'' = Some ''https://old.example/''"
proof -
  let ?s = "store_of [''3f9a1c'' \<mapsto> ''https://old.example/'']"
  note l = link_store_old_example
  have a: "entries ?s (candidate (shd (bits1 ## sconst bits2))) = Some ''https://old.example/''"
    by (simp add: candidate_bits1 store_of_def)
  note run = createKey_collision_run[of "''https://example.com/page''"]
  from colliding_mapping_kept[OF l a run] l a run show ?thesis
    by (simp add: candidate_bits1)
qed

text \<open>
  Claim C8. The collision retry has no fixed bound and no error result: on every store
  state of the data model, \<open>createKey\<close> returns exactly when some draw of the random
  stream gives a candidate key that is absent from the store, and it does not return when
  every drawn candidate is occupied. When draw number \<open>n\<close> is the first with an absent
  key, the call returns after \<open>n + 1\<close> draws, whatever \<open>n\<close> is.
\<close>

theorem createKey_terminates_exactly:
  assumes "link_store s"
  shows "(createKey rs s url \<noteq> None) = (\<exists>n. entries s (candidate (rs !! n)) = None) \<and>
   ((\<forall>n. entries s (candidate (rs !! n)) \<noteq> None) \<longrightarrow> createKey rs s url = None) \<and>
   (entries s (candidate (rs !! n)) = None \<and>
      (\<forall>i<n. entries s (candidate (rs !! i)) \<noteq> None) \<longrightarrow>
      (\<exists>s'. createKey rs s url = Some (candidate (shd rs), s', sdrop (Suc n) rs)))"
proof -
  have f: "\<And>k. falsy (entries s k) = (entries s k = None)"
    using assms by (rule link_store_falsy)
  have a: "(createKey rs s url \<noteq> None) = (\<exists>n. entries s (candidate (rs !! n)) = None)"
    using createKey_terminates_iff[of rs s url] by (simp add: f)
  have b: "first_free rs s n =
      (entries s (candidate (rs !! n)) = None \<and>
       (\<forall>i<n. entries s (candidate (rs !! i)) \<noteq> None))"
    by (simp add: first_free_def f)
  from a b createKey_first_free[of rs s n url] show ?thesis by blast
qed

theorem createKey_terminates_exactly_witness:
  "link_store (store_of [''3f9a1c'' \<mapsto> ''https://old.example/'']) \<and>
   (\<forall>n. entries (store_of [''3f9a1c'' \<mapsto> ''https://old.example/''])
            (candidate (sconst bits1 !! n)) \<noteq> None) \<and>
   createKey (sconst bits1) (store_of [''3f9a1c'' \<mapsto> ''https://old.example/''])
       ''https://example.com/page'' = None \<and>
   entries (store_of [''3f9a1c'' \<mapsto> ''https://old.example/''])
       (candidate ((bits1 ## sconst bits2) !! 1)) = None \<and>
   createKey (bits1 ## sconst bits2) (store_of [''3f9a1c'' \<mapsto> ''https://old.example/''])
       ''https://example.com/page'' \<noteq> None"
proof -
  let ?s = "store_of [''3f9a1c'' \<mapsto> ''https://old.example/'']"
  note l = link_store_old_example
  have a: "\<forall>n. entries ?s (candidate (sconst bits1 !! n)) \<noteq> None"
    by (simp add: candidate_bits1 store_of_def)
  have b: "entries ?s (candidate ((bits1 ## sconst bits2) !! 1)) = None"
    by (simp add: candidate_bits2 store_of_def)
  from createKey_terminates_exactly[OF l, of "sconst bits1" "''https://example.com/page''" 0] a
  have c: "createKey (sconst bits1) ?s ''https://example.com/page'' = None" by blast
  from createKey_terminates_exactly[OF l, of "bits1 ## sconst bits2"
      "''https://example.com/page''" 1] b
  have d: "createKey (bits1 ## sconst bits2) ?s ''https://example.com/page'' \<noteq> None" by blast
  from l a b c d show ?thesis by blast
qed

text \<open>
  Claim C9. After every returning call of \<open>createKey\<close> with the submitted URL, the
  store has at least one key whose stored value is that URL, also when the first candidate
  collided; so every \<open>POST /create\<close> that answers with the page of the created link has
  added a mapping to the submitted URL under some key.
\<close>

theorem createKey_stores_target:
  "(createKey rs s url = Some (key, s', rs') \<longrightarrow> (\<exists>k. entries s' k = Some url)) \<and>
   (post_create is_url r s rs = Some out \<and> response out = Rendered (CreatedPage link) \<longrightarrow>
      (\<exists>k u. form_url r = Some u \<and> entries (store out) k = Some u))"
proof (intro conjI impI)
  assume "createKey rs s url = Some (key, s', rs')"
  from createKey_result[OF this] show "\<exists>k. entries s' k = Some url" by auto
next
  assume a: "post_create is_url r s rs = Some out \<and> response out = Rendered (CreatedPage link)"
  with post_create_stages[of is_url r s rs out]
  obtain u k where u: "form_url r = Some u" and run: "createKey rs s u = Some (k, store out, rand out)"
    by auto
  from createKey_result[OF run] have "\<exists>k. entries (store out) k = Some u" by auto
  with u show "\<exists>k u. form_url r = Some u \<and> entries (store out) k = Some u" by auto
qed

theorem createKey_stores_target_witness:
  "createKey (bits1 ## sconst bits2) (store_of [''3f9a1c'' \<mapsto> ''https://old.example/''])
       ''https://example.com/page'' \<noteq> None \<and>
   (\<exists>k. entries (fst (snd (the (createKey (bits1 ## sconst bits2)
       (store_of [''3f9a1c'' \<mapsto> ''https://old.example/'']) ''https://example.com/page''))))
       k = Some ''https://example.com/page'')"
proof -
  note run = createKey_collision_run[of "''https://example.com/page''"]
  from createKey_stores_target[of "bits1 ## sconst bits2"
      "store_of [''3f9a1c'' \<mapsto> ''https://old.example/'']" "''https://example.com/page''"
      "''3f9a1c''"
      "\<lparr>entries = [''3f9a1c'' \<mapsto> ''https://old.example/'',
                    ''c07e52'' \<mapsto> ''https://example.com/page''],
         ops = [Get ''3f9a1c'', Get ''c07e52'', Put ''c07e52'' ''https://example.com/page'']\<rparr>"
      "sconst bits2"] run
  show ?thesis by simp
qed

section \<open>The older creation route\<close>

lemma post_create_B_invalid:
  "(\<And>u. form_url r = Some u \<Longrightarrow> \<not> is_url u) \<Longrightarrow>
   post_create_B is_url r s rs =
     Some \<lparr>response = Rendered ErrorPage, store = s, rand = rs, stages = [FormValidator]\<rparr>"
  by (cases "form_url r")
    (simp_all add: post_create_B_def validator_def enter_def respond_def Let_def)

lemma post_create_B_new:
  "form_url r = Some u \<Longrightarrow> is_url u \<Longrightarrow> falsy (entries s u) \<Longrightarrow>
   post_create_B is_url r s rs =
     Some \<lparr>response = Rendered (CreatedPage (shortenUrl r (candidate (shd rs)))),
           store = kv_put (snd (kv_get s u)) (candidate (shd rs)) u,
           rand = stl rs, stages = [FormValidator, CreateHandler]\<rparr>"
  by (simp add: post_create_B_def validator_def create_handler_B_def enter_def respond_def
      Let_def candidate_def kv_get_def)

lemma post_create_B_reuse:
  "form_url r = Some u \<Longrightarrow> is_url u \<Longrightarrow> entries s u = Some k \<Longrightarrow> k \<noteq> [] \<Longrightarrow>
   post_create_B is_url r s rs =
     Some \<lparr>response = Rendered (CreatedPage (shortenUrl r k)),
           store = snd (kv_get s u),
           rand = stl rs, stages = [FormValidator, CreateHandler]\<rparr>"
  by (simp add: post_create_B_def validator_def create_handler_B_def enter_def respond_def
      Let_def kv_get_def)

lemma post_create_B_headers:
  "post_create_B is_url (r\<lparr>origin_header := h, referer_header := f\<rparr>) s rs =
   post_create_B is_url r s rs"
  by (cases "form_url r")
    (simp_all add: post_create_B_def validator_def create_handler_B_def enter_def respond_def
      Let_def shortenUrl_def split_beta)

lemma link_store_post_create_B:
  assumes "absolute_urls_only is_url" and "link_store s"
    and "post_create_B is_url r s rs = Some out"
  shows "link_store (store out)"
proof (cases "\<exists>u. form_url r = Some u \<and> is_url u")
  case False
  then have "\<And>u. form_url r = Some u \<Longrightarrow> \<not> is_url u" by blast
  from post_create_B_invalid[where is_url = is_url and r = r and s = s and rs = rs, OF this]
    assms(2,3) show ?thesis by auto
next
  case True
  then obtain u where u: "form_url r = Some u" "is_url u" by blast
  from absolute_urls_only_no_key[OF assms(1) u(2)] assms(2) have "entries s u = None"
    by (cases "entries s u") (auto simp: link_store_def)
  then have "falsy (entries s u)" by simp
  from post_create_B_new[where is_url = is_url, OF u this, of rs] assms(3)
  have "store out = kv_put (snd (kv_get s u)) (candidate (shd rs)) u" by auto
  with link_store_kv_put[OF link_store_kv_get[OF assms(2)] candidate_route_key
      absolute_urls_only_nonempty[OF assms(1) u(2)]]
  show ?thesis by simp
qed

lemma reachable_B_link_store:
  assumes "absolute_urls_only is_url" and "reachable_B is_url s"
  shows "link_store s"
  using assms(2)
proof (induction rule: reachable_B.induct)
  case start_B
  show ?case by (rule link_store_start)
next
  case (get_B s path)
  then show ?case by (simp add: link_store_app_get)
next
  case (post_B s r rs out)
  from link_store_post_create_B[OF assms(1) post_B.IH post_B.hyps(2)] show ?case .
qed

text \<open>
  Claim C7 says that the older route, which looks the submitted target up as a store key
  and stores a new key only when it finds nothing, returns the same key for two successive
  submissions of the same target. The handler stores \<open>key \<mapsto> url\<close> only, never
  \<open>url \<mapsto> key\<close>, so the second lookup finds nothing either: on an empty store, with the
  draws \<open>3f9a1c...\<close> and \<open>c07e52...\<close>, the first submission of
  \<open>https://example.com/page\<close> returns \<open>3f9a1c\<close>, the second returns \<open>c07e52\<close>, and
  the store ends with two keys for the one target.
\<close>

theorem variant_B_duplicates:
  "post_create_B url_test (same_site ''https://example.com/page'') (store_of Map.empty)
       (bits1 ## sconst bits2) =
     Some \<lparr>response = Rendered (CreatedPage ''https://sho.rt/3f9a1c''),
           store = \<lparr>entries = [''3f9a1c'' \<mapsto> ''https://example.com/page''],
                      ops = [Get ''https://example.com/page'',
                             Put ''3f9a1c'' ''https://example.com/page'']\<rparr>,
           rand = sconst bits2, stages = [FormValidator, CreateHandler]\<rparr> \<and>
   post_create_B url_test (same_site ''https://example.com/page'')
       \<lparr>entries = [''3f9a1c'' \<mapsto> ''https://example.com/page''],
        ops = [Get ''https://example.com/page'', Put ''3f9a1c'' ''https://example.com/page'']\<rparr>
       (sconst bits2) =
     Some \<lparr>response = Rendered (CreatedPage ''https://sho.rt/c07e52''),
           store = \<lparr>entries = [''3f9a1c'' \<mapsto> ''https://example.com/page'',
                                 ''c07e52'' \<mapsto> ''https://example.com/page''],
                      ops = [Get ''https://example.com/page'',
                             Put ''3f9a1c'' ''https://example.com/page'',
                             Get ''https://example.com/page'',
                             Put ''c07e52'' ''https://example.com/page'']\<rparr>,
           rand = sconst bits2, stages = [FormValidator, CreateHandler]\<rparr>"
proof -
  let ?u = "''https://example.com/page''"
  have f: "form_url (same_site ?u) = Some ?u" by (simp add: same_site_def)
  have "falsy (entries (store_of Map.empty) ?u)" by (simp add: store_of_def)
  from post_create_B_new[where is_url = url_test, OF f url_test_page this,
      of "bits1 ## sconst bits2"]
  have one: "post_create_B url_test (same_site ?u) (store_of Map.empty) (bits1 ## sconst bits2) =
     Some \<lparr>response = Rendered (CreatedPage ''https://sho.rt/3f9a1c''),
           store = \<lparr>entries = [''3f9a1c'' \<mapsto> ?u], ops = [Get ?u, Put ''3f9a1c'' ?u]\<rparr>,
           rand = sconst bits2, stages = [FormValidator, CreateHandler]\<rparr>"
    by (simp add: candidate_bits1 shortenUrl_def same_site_def kv_put_def kv_get_def store_of_def)
  have "falsy (entries \<lparr>entries = [''3f9a1c'' \<mapsto> ?u], ops = [Get ?u, Put ''3f9a1c'' ?u]\<rparr> ?u)"
    by simp
  from post_create_B_new[where is_url = url_test, OF f url_test_page this, of "sconst bits2"]
  have two: "post_create_B url_test (same_site ?u)
       \<lparr>entries = [''3f9a1c'' \<mapsto> ?u], ops = [Get ?u, Put ''3f9a1c'' ?u]\<rparr> (sconst bits2) =
     Some \<lparr>response = Rendered (CreatedPage ''https://sho.rt/c07e52''),
           store = \<lparr>entries = [''3f9a1c'' \<mapsto> ?u, ''c07e52'' \<mapsto> ?u],
                      ops = [Get ?u, Put ''3f9a1c'' ?u, Get ?u, Put ''c07e52'' ?u]\<rparr>,
           rand = sconst bits2, stages = [FormValidator, CreateHandler]\<rparr>"
    by (simp add: candidate_bits2 shortenUrl_def same_site_def kv_put_def kv_get_def)
  from one two show ?thesis by simp
qed

text \<open>
  Claim C10. The older \<open>POST /create\<close> route applies no CSRF guard: two requests that
  differ only in their \<open>Origin\<close> and \<open>Referer\<close> headers have the same outcome and the
  same effect on the store; so, on every store state of the data model, a cross-site form
  submission that passes URL validation mutates the store: the handler puts the new key
  with the target.
\<close>

theorem variant_B_no_csrf:
  assumes "link_store s" and "absolute_urls_only is_url"
  shows "post_create_B is_url (r\<lparr>origin_header := h, referer_header := f\<rparr>) s rs =
     post_create_B is_url r s rs \<and>
   (\<not> isAllowedOrigin r \<and> form_url r = Some u \<and> is_url u \<longrightarrow>
      post_create_B is_url r s rs =
        Some \<lparr>response = Rendered (CreatedPage (shortenUrl r (candidate (shd rs)))),
              store = \<lparr>entries = (entries s)(candidate (shd rs) \<mapsto> u),
                         ops = ops s @ [Get u, Put (candidate (shd rs)) u]\<rparr>,
              rand = stl rs, stages = [FormValidator, CreateHandler]\<rparr>)"
proof (intro conjI impI)
  show "post_create_B is_url (r\<lparr>origin_header := h, referer_header := f\<rparr>) s rs =
     post_create_B is_url r s rs"
    by (rule post_create_B_headers)
next
  assume a: "\<not> isAllowedOrigin r \<and> form_url r = Some u \<and> is_url u"
  then have u: "form_url r = Some u" "is_url u" by simp_all
  from absolute_urls_only_no_key[OF assms(2) u(2)] assms(1) have "entries s u = None"
    by (cases "entries s u") (auto simp: link_store_def)
  then have "falsy (entries s u)" by simp
  from post_create_B_new[where is_url = is_url, OF u this, of rs]
  show "post_create_B is_url r s rs =
        Some \<lparr>response = Rendered (CreatedPage (shortenUrl r (candidate (shd rs)))),
              store = \<lparr>entries = (entries s)(candidate (shd rs) \<mapsto> u),
                         ops = ops s @ [Get u, Put (candidate (shd rs)) u]\<rparr>,
              rand = stl rs, stages = [FormValidator, CreateHandler]\<rparr>"
    by (simp add: kv_put_def kv_get_def)
qed

theorem variant_B_no_csrf_witness:
  "link_store (store_of [''3f9a1c'' \<mapsto> ''https://old.example/'']) \<and>
   absolute_urls_only url_test \<and>
   \<not> isAllowedOrigin (cross_site ''https://example.com/page'') \<and>
   url_test ''https://example.com/page'' \<and>
   post_create_B url_test (cross_site ''https://example.com/page'')
       (store_of [''3f9a1c'' \<mapsto> ''https://old.example/'']) (sconst bits2) =
     Some \<lparr>response = Rendered (CreatedPage ''https://sho.rt/c07e52''),
           store = \<lparr>entries = [''3f9a1c'' \<mapsto> ''https://old.example/'',
                                 ''c07e52'' \<mapsto> ''https://example.com/page''],
                      ops = [Get ''https://example.com/page'',
                             Put ''c07e52'' ''https://example.com/page'']\<rparr>,
           rand = sconst bits2, stages = [FormValidator, CreateHandler]\<rparr> \<and>
   post_create_B url_test (same_site ''https://example.com/page'')
       (store_of [''3f9a1c'' \<mapsto> ''https://old.example/'']) (sconst bits2) =
   post_create_B url_test (cross_site ''https://example.com/page'')
       (store_of [''3f9a1c'' \<mapsto> ''https://old.example/'']) (sconst bits2)"
proof -
  let ?u = "''https://example.com/page''"
  let ?s = "store_of [''3f9a1c'' \<mapsto> ''https://old.example/'']"
  note l = link_store_old_example
  note t = url_test_absolute
  have f: "form_url (cross_site ?u) = Some ?u" by (simp add: cross_site_def)
  have c: "\<not> isAllowedOrigin (cross_site ?u)" by (rule isAllowedOrigin_cross_site)
  have eq: "same_site ?u = (cross_site ?u)\<lparr>origin_header := Some ''https://sho.rt'',
      referer_header := Some ''https://sho.rt/''\<rparr>"
    by (simp add: same_site_def cross_site_def)
  note inst = variant_B_no_csrf[where is_url = url_test and r = "cross_site ?u" and u = ?u
      and s = ?s and rs = "sconst bits2"
      and h = "Some ''https://sho.rt''" and f = "Some ''https://sho.rt/''", OF l t]
  from inst c f url_test_page
  have run: "post_create_B url_test (cross_site ?u) ?s (sconst bits2) =
     Some \<lparr>response = Rendered (CreatedPage ''https://sho.rt/c07e52''),
           store = \<lparr>entries = [''3f9a1c'' \<mapsto> ''https://old.example/'', ''c07e52'' \<mapsto> ?u],
                      ops = [Get ?u, Put ''c07e52'' ?u]\<rparr>,
           rand = sconst bits2, stages = [FormValidator, CreateHandler]\<rparr>"
    by (simp add: candidate_bits2 shortenUrl_def cross_site_def store_of_def)
  from inst have "post_create_B url_test (same_site ?u) ?s (sconst bits2) =
      post_create_B url_test (cross_site ?u) ?s (sconst bits2)"
    by (simp only: eq)
  with run c url_test_page l t show ?thesis by simp
qed

end
